theory Spec2Isabelle
  imports Main "HOL-Library.Word"
begin

unbundle bit_operations_syntax

section \<open>Values of the script: bytes, text, errors\<close>

text \<open>
  The script \<^verbatim>\<open>add-to-steam.py\<close> works on Python \<^verbatim>\<open>bytes\<close> (here lists of
  8-bit words), on Python \<^verbatim>\<open>str\<close> (here lists of code points: a \<^verbatim>\<open>str\<close> is a
  sequence of code points below \<open>0x110000\<close>, lone surrogates included) and on Python's
  unbounded integers (here \<open>int\<close>). Every way the interpreter can leave the modelled
  part of the script early is a value of \<open>error\<close>.
\<close>

type_synonym byte = "8 word"
type_synonym bytes = "byte list"
type_synonym str = "nat list"

datatype error =
    UnicodeEncodeError    \<comment> \<open>\<^verbatim>\<open>str.encode\<close> met a code point UTF-8 cannot encode\<close>
  | StructError           \<comment> \<open>\<^verbatim>\<open>struct.pack('<I', v)\<close> with \<open>v\<close> outside \<open>0 .. 2^32 - 1\<close>\<close>
  | ValueError            \<comment> \<open>\<^verbatim>\<open>int(...)\<close> or \<^verbatim>\<open>str(...)\<close> beyond the limit on decimal digits\<close>
  | MalformedContainer    \<comment> \<open>the \<^verbatim>\<open>else\<close> branch of line 272: message and \<^verbatim>\<open>exit(1)\<close>\<close>

text \<open>Sequencing: an exception raised by one step skips the steps after it.\<close>

definition and_then :: "error + 'a \<Rightarrow> ('a \<Rightarrow> error + 'b) \<Rightarrow> error + 'b" where
  "and_then m f = (case m of Inl e \<Rightarrow> Inl e | Inr x \<Rightarrow> f x)"

text \<open>Text literals of the script are ASCII; \<open>lit\<close> reads a HOL string as such a text
  and \<open>blit\<close> as the bytes of a \<^verbatim>\<open>b'...'\<close> literal.\<close>

definition lit :: "string \<Rightarrow> str" where
  "lit s = map of_char s"

definition blit :: "string \<Rightarrow> bytes" where
  "blit s = map of_char s"

subsection \<open>\<^verbatim>\<open>str.encode("utf-8")\<close>\<close>

text \<open>
  CPython's UTF-8 encoder: one to four bytes per code point, and
  \<^verbatim>\<open>UnicodeEncodeError\<close> ("surrogates not allowed") for a code point in
  \<open>0xD800 .. 0xDFFF\<close>. A number from \<open>0x110000\<close> on is no element of a \<^verbatim>\<open>str\<close>; the
  model rejects it the same way.
\<close>

definition is_surrogate :: "nat \<Rightarrow> bool" where
  "is_surrogate c = (0xD800 \<le> c \<and> c \<le> 0xDFFF)"

definition encodable_cp :: "nat \<Rightarrow> bool" where
  "encodable_cp c = (c < 0x110000 \<and> \<not> is_surrogate c)"

definition encodable :: "str \<Rightarrow> bool" where
  "encodable t = list_all encodable_cp t"

definition utf8_cp :: "nat \<Rightarrow> bytes option" where
  "utf8_cp c =
     (if c < 0x80 then Some [of_nat c]
      else if c < 0x800 then
        Some [0xC0 OR of_nat (c div 64), 0x80 OR of_nat (c mod 64)]
      else if c < 0x10000 then
        (if is_surrogate c then None
         else Some [0xE0 OR of_nat (c div 4096), 0x80 OR of_nat (c div 64 mod 64),
                    0x80 OR of_nat (c mod 64)])
      else if c < 0x110000 then
        Some [0xF0 OR of_nat (c div 262144), 0x80 OR of_nat (c div 4096 mod 64),
              0x80 OR of_nat (c div 64 mod 64), 0x80 OR of_nat (c mod 64)]
      else None)"

fun encode :: "str \<Rightarrow> error + bytes" where
  "encode [] = Inr []"
| "encode (c # cs) =
     (case utf8_cp c of
        None \<Rightarrow> Inl UnicodeEncodeError
      | Some bs \<Rightarrow> and_then (encode cs) (\<lambda>rest. Inr (bs @ rest)))"

subsection \<open>\<^verbatim>\<open>zlib.crc32\<close>\<close>

text \<open>
  The standard CRC-32 of zlib (reflected polynomial \<open>0xEDB88320\<close>, register
  initialised to and finally inverted with \<open>0xFFFFFFFF\<close>), bit by bit. Python 3 returns
  it as an unsigned integer.
\<close>

definition crc_bit :: "32 word \<Rightarrow> 32 word" where
  "crc_bit r = (if bit r 0 then drop_bit 1 r XOR 0xEDB88320 else drop_bit 1 r)"

definition crc_byte :: "32 word \<Rightarrow> byte \<Rightarrow> 32 word" where
  "crc_byte r b = (crc_bit ^^ 8) (r XOR ucast b)"

definition crc32_word :: "bytes \<Rightarrow> 32 word" where
  "crc32_word bs = foldl crc_byte 0xFFFFFFFF bs XOR 0xFFFFFFFF"

definition crc32 :: "bytes \<Rightarrow> int" where
  "crc32 bs = uint (crc32_word bs)"

section \<open>The application identifier (line 263)\<close>

text \<open>
  \<^verbatim>\<open>appid = 0x80000000 | zlib.crc32((APPNAME + EXE).encode("utf-8")) & 0xFFFFFFFF\<close>.
  In Python \<^verbatim>\<open>&\<close> binds tighter than \<^verbatim>\<open>|\<close>; both work on unbounded integers.
\<close>

definition appid_of_bytes :: "bytes \<Rightarrow> int" where
  "appid_of_bytes bs = 0x80000000 OR (crc32 bs AND 0xFFFFFFFF)"

definition computeAppId :: "str \<Rightarrow> str \<Rightarrow> error + int" where
  "computeAppId appname exe =
     and_then (encode (appname @ exe)) (\<lambda>bs. Inr (appid_of_bytes bs))"

section \<open>Decimal text and packed integers\<close>

text \<open>
  CPython limits conversions between \<^verbatim>\<open>int\<close> and decimal text: \<^verbatim>\<open>int(s)\<close> on more
  than 4300 digit characters and \<^verbatim>\<open>str(i)\<close> for an \<open>i\<close> of more than 4300 decimal digits
  raise \<^verbatim>\<open>ValueError\<close> (\<^verbatim>\<open>sys.int_info.default_max_str_digits\<close>; the script does not
  change the limit). The sign does not count; leading zeros do.
\<close>

definition max_str_digits :: nat where
  "max_str_digits = 4300"

text \<open>The decimal digits of a natural number in ASCII, and the decimal text of an
  integer: a minus sign first when it is negative.\<close>

function dec_nat :: "nat \<Rightarrow> bytes" where
  "dec_nat n = (if n < 10 then [0x30 + of_nat n] else dec_nat (n div 10) @ [0x30 + of_nat (n mod 10)])"
  by pat_completeness auto
termination
  by (relation "measure id") auto

declare dec_nat.simps [simp del]

definition decimal_digits :: "int \<Rightarrow> nat" where
  "decimal_digits i = length (dec_nat (nat \<bar>i\<bar>))"

definition decimal_text :: "int \<Rightarrow> bytes" where
  "decimal_text i = (if i < 0 then 0x2D # dec_nat (nat (- i)) else dec_nat (nat i))"

text \<open>\<^verbatim>\<open>str(i).encode()\<close>: the decimal text of \<open>i\<close>, or \<^verbatim>\<open>ValueError\<close> when \<open>i\<close> has too
  many digits. Encoding ASCII text cannot fail.\<close>

definition str_bytes :: "int \<Rightarrow> error + bytes" where
  "str_bytes i =
     (if max_str_digits < decimal_digits i then Inl ValueError else Inr (decimal_text i))"

text \<open>The number a run of ASCII digits stands for, and \<^verbatim>\<open>int(m)\<close> for a bytes object
  \<open>m\<close> of ASCII digits, as the scan below hands it over: that number, or \<^verbatim>\<open>ValueError\<close>
  when \<open>m\<close> has too many digits.\<close>

definition digit_val :: "byte \<Rightarrow> int" where
  "digit_val b = uint b - 0x30"

definition decimal_value :: "bytes \<Rightarrow> int" where
  "decimal_value ds = foldl (\<lambda>acc d. 10 * acc + digit_val d) 0 ds"

definition py_int :: "bytes \<Rightarrow> error + int" where
  "py_int ds =
     (if max_str_digits < length ds then Inl ValueError else Inr (decimal_value ds))"

text \<open>\<^verbatim>\<open>struct.pack('<I', v)\<close>: four bytes, least significant first;
  \<^verbatim>\<open>struct.error\<close> when \<open>v\<close> is negative or needs more than 32 bits.\<close>

definition struct_pack_I :: "int \<Rightarrow> error + bytes" where
  "struct_pack_I v =
     (if 0 \<le> v \<and> v < 2 ^ 32
      then Inr [of_int v, of_int (v div 256), of_int (v div 65536), of_int (v div 16777216)]
      else Inl StructError)"

section \<open>The index scan (lines 225 to 236)\<close>

text \<open>
  \<^verbatim>\<open>re.findall(rb'\x00(\d+)\x00', data)\<close>. The engine tries each start position from
  left to right. At a null byte it takes the longest run of ASCII digits (in a bytes
  pattern \<^verbatim>\<open>\d\<close> is \<open>0\<close> to \<open>9\<close>) and succeeds when the run is not empty and a null byte
  follows it; giving back digits cannot help, since the byte after a shorter run is a
  digit. After a match the search resumes right after the matched bytes, otherwise at
  the next position. The result lists the digit groups in the order found.
\<close>

definition is_digit :: "byte \<Rightarrow> bool" where
  "is_digit b = (0x30 \<le> b \<and> b \<le> 0x39)"

function findall :: "bytes \<Rightarrow> bytes list" where
  "findall [] = []"
| "findall (b # bs) =
     (if b = 0 then
        (case (takeWhile is_digit bs, dropWhile is_digit bs) of
           (d # ds, z # rest) \<Rightarrow> if z = 0 then (d # ds) # findall rest else findall bs
         | _ \<Rightarrow> findall bs)
      else findall bs)"
  by pat_completeness auto
termination
proof (relation "measure length")
  fix b :: byte and bs xa y d ds z rest
  assume "(xa, y) = (takeWhile is_digit bs, dropWhile is_digit bs)" "y = z # rest"
  then have "dropWhile is_digit bs = z # rest" by simp
  then have "length rest < length (dropWhile is_digit bs)" by simp
  also have "\<dots> \<le> length bs" by (rule length_dropWhile_le)
  finally show "(rest, b # bs) \<in> measure length" by simp
qed auto

definition get_latest_index :: "bytes \<Rightarrow> error + int" where
  "get_latest_index data =
     (let matches = findall data in
      if matches \<noteq> [] then py_int (last matches) else Inr (- 1))"

text \<open>Line 236: \<^verbatim>\<open>index = get_latest_index(data) + 1\<close>.\<close>

definition nextIndex :: "bytes \<Rightarrow> error + int" where
  "nextIndex data = and_then (get_latest_index data) (\<lambda>latest. Inr (latest + 1))"

section \<open>The record builder (lines 239 to 260)\<close>

text \<open>
  \<^verbatim>\<open>make_entry\<close> reads the global \<^verbatim>\<open>config_dir\<close>; here it is the first argument. The
  statements \<^verbatim>\<open>b += ...\<close> run in order, so the first one that raises decides the error.
\<close>

definition make_entry :: "str \<Rightarrow> int \<Rightarrow> int \<Rightarrow> str \<Rightarrow> str \<Rightarrow> str \<Rightarrow> error + bytes" where
  "make_entry config_dir index appid appname exe startdir =
     (let x00 = [0x00]; x01 = [0x01]; x02 = [0x02]; x08 = [0x08 :: byte];
          b = []
      in and_then (str_bytes index) (\<lambda>index_b.
         let b = b @ x00 @ index_b @ x00
      in and_then (struct_pack_I appid) (\<lambda>packed.
         let b = b @ x02 @ blit ''appid'' @ x00 @ packed
      in and_then (encode appname) (\<lambda>appname_b.
         let b = b @ x01 @ blit ''appname'' @ x00 @ appname_b @ x00
      in and_then (encode exe) (\<lambda>exe_b.
         let b = b @ x01 @ blit ''exe'' @ x00 @ exe_b @ x00
      in and_then (encode startdir) (\<lambda>startdir_b.
         let b = b @ x01 @ blit ''StartDir'' @ x00 @ startdir_b @ x00
      in and_then (encode config_dir) (\<lambda>config_dir_b.
         and_then (str_bytes appid) (\<lambda>appid_b.
         let b = b @ x01 @ blit ''icon'' @ x00 @ config_dir_b @ blit ''/grid/''
                   @ appid_b @ blit ''_icon.ico'' @ x00;
             b = b @ x08
      in Inr b))))))))"

section \<open>Splicing the entry into the container (lines 216 to 274)\<close>

text \<open>\<^verbatim>\<open>data.endswith(suffix)\<close> and the slice \<^verbatim>\<open>data[:-2]\<close>.\<close>

definition endswith :: "bytes \<Rightarrow> bytes \<Rightarrow> bool" where
  "endswith data suffix =
     (length suffix \<le> length data \<and> drop (length data - length suffix) data = suffix)"

definition drop_last2 :: "bytes \<Rightarrow> bytes" where
  "drop_last2 data = take (length data - 2) data"

definition terminator :: bytes where
  "terminator = [0x08, 0x08]"

text \<open>Lines 267 to 274, without the file: the new contents, or the failure of the
  \<^verbatim>\<open>else\<close> branch.\<close>

definition insertEntry :: "bytes \<Rightarrow> bytes \<Rightarrow> error + bytes" where
  "insertEntry data entry =
     (if endswith data terminator then Inr (drop_last2 data @ entry @ terminator)
      else Inl MalformedContainer)"

text \<open>
  The script from line 216 on, as a function of its configuration and of the contents
  of \<^verbatim>\<open>shortcuts.vdf\<close> (\<open>None\<close>: the file does not exist). It returns the contents
  of the file afterwards and either the error that ended the run or the index and
  identifier of the entry written. The file is written in two places only: line 219
  (a missing file is created empty) and line 270 (the spliced contents). Before line
  267 the run can end on line 236 (the index), line 263 (the identifier) or line 264
  (the entry).
\<close>

record config =
  APPNAME :: str
  EXE :: str
  STARTDIR :: str
  config_dir :: str

definition empty_vdf :: bytes where
  "empty_vdf = 0x00 # blit ''shortcuts'' @ [0x00, 0x08, 0x08]"

definition add_shortcut :: "config \<Rightarrow> bytes option \<Rightarrow> bytes option \<times> (error + int \<times> int)" where
  "add_shortcut cfg file =
     (let file = (case file of None \<Rightarrow> Some empty_vdf | Some old \<Rightarrow> Some old);
          data = (case file of None \<Rightarrow> [] | Some contents \<Rightarrow> contents);
          new_data =
            and_then (nextIndex data) (\<lambda>index.
            and_then (computeAppId (APPNAME cfg) (EXE cfg)) (\<lambda>appid.
            and_then (make_entry (config_dir cfg) index appid (APPNAME cfg) (EXE cfg) (STARTDIR cfg)) (\<lambda>entry.
            and_then (insertEntry data entry) (\<lambda>new_data. Inr (new_data, index, appid)))))
      in (case new_data of
            Inl e \<Rightarrow> (file, Inl e)
          | Inr (new_data, index, appid) \<Rightarrow> (Some new_data, Inr (index, appid))))"

text \<open>The exit status of a run that ends in an error: \<^verbatim>\<open>exit(1)\<close> on line 274, and
  the interpreter's status 1 for an exception nobody catches.\<close>

definition exit_status :: "error \<Rightarrow> nat" where
  "exit_status e =
     (case e of MalformedContainer \<Rightarrow> 1 | UnicodeEncodeError \<Rightarrow> 1 | StructError \<Rightarrow> 1
      | ValueError \<Rightarrow> 1)"

section \<open>Definitions for stating the claims\<close>

text \<open>The identifier as the specification words it, on a 32-bit register: the checksum,
  masked to 32 bits, with bit 31 set.\<close>

definition spec_appid :: "bytes \<Rightarrow> 32 word" where
  "spec_appid bs = (crc32_word bs AND 0xFFFFFFFF) OR 0x80000000"

text \<open>The unsigned number a little-endian byte string stands for.\<close>

definition le_value :: "bytes \<Rightarrow> int" where
  "le_value bs = foldr (\<lambda>b acc. uint b + 256 * acc) bs 0"

text \<open>The checksum on integers, step by step; it evaluates quickly on literals.\<close>

definition crc_bit_i :: "int \<Rightarrow> int" where
  "crc_bit_i r = (if odd r then (r div 2) XOR 0xEDB88320 else r div 2)"

definition crc_byte_i :: "int \<Rightarrow> byte \<Rightarrow> int" where
  "crc_byte_i r b = (crc_bit_i ^^ 8) (r XOR uint b)"

text \<open>The layout of a record as the specification describes it: an integer field is
  the tag \<open>0x02\<close>, the name, a null byte and four bytes; a text field is the tag \<open>0x01\<close>,
  the name, a null byte, the value and a null byte.\<close>

definition int_field :: "string \<Rightarrow> bytes \<Rightarrow> bytes" where
  "int_field name four_bytes = [0x02] @ blit name @ [0x00] @ four_bytes"

definition text_field :: "string \<Rightarrow> bytes \<Rightarrow> bytes" where
  "text_field name val = [0x01] @ blit name @ [0x00] @ val @ [0x00]"

definition icon_path :: "bytes \<Rightarrow> int \<Rightarrow> bytes" where
  "icon_path config_dir_b appid =
     config_dir_b @ blit ''/grid/'' @ decimal_text appid @ blit ''_icon.ico''"

definition record_layout :: "int \<Rightarrow> bytes \<Rightarrow> bytes \<Rightarrow> bytes \<Rightarrow> bytes \<Rightarrow> bytes \<Rightarrow> bytes" where
  "record_layout index appid_le appname_b exe_b startdir_b icon_b =
     [0x00] @ decimal_text index @ [0x00]
     @ int_field ''appid'' appid_le
     @ text_field ''appname'' appname_b
     @ text_field ''exe'' exe_b
     @ text_field ''StartDir'' startdir_b
     @ text_field ''icon'' icon_b
     @ [0x08]"

text \<open>A configuration to evaluate the script on.\<close>

definition cfg0 :: config where
  "cfg0 = \<lparr>APPNAME = lit ''Minecraft Splitscreen'', EXE = lit ''/x/run.sh'',
            STARTDIR = lit ''/x'', config_dir = lit ''/c''\<rparr>"

text \<open>
  An occurrence of the pattern "null byte, one or more decimal digits, null byte" in
  \<open>data\<close>: \<open>marker_at data i ds\<close> says that it starts at position \<open>i\<close> and that \<open>ds\<close> are
  its digits.
\<close>

definition marker_at :: "bytes \<Rightarrow> nat \<Rightarrow> bytes \<Rightarrow> bool" where
  "marker_at data i ds =
     (ds \<noteq> [] \<and> list_all is_digit ds \<and> take (length ds + 2) (drop i data) = 0 # ds @ [0])"

text \<open>
  The occurrences a scan from left to right finds when each search resumes right after
  the previous match: \<open>scan data p ms\<close> lists, with their positions, the occurrences
  found from position \<open>p\<close> on. The first occurrence at or after \<open>p\<close> is taken; the next
  search starts after its closing null byte, so an occurrence that begins on that null
  byte is passed over.
\<close>

inductive scan :: "bytes \<Rightarrow> nat \<Rightarrow> (nat \<times> bytes) list \<Rightarrow> bool" where
  scan_done: "(\<And>i ds. marker_at data i ds \<Longrightarrow> i < p) \<Longrightarrow> scan data p []"
| scan_found: "marker_at data i ds \<Longrightarrow> p \<le> i
     \<Longrightarrow> (\<And>j ds'. marker_at data j ds' \<Longrightarrow> p \<le> j \<Longrightarrow> i \<le> j)
     \<Longrightarrow> scan data (i + length ds + 2) ms
     \<Longrightarrow> scan data p ((i, ds) # ms)"

text \<open>\<open>contains data pat\<close>: the bytes \<open>pat\<close> stand somewhere in \<open>data\<close>, one after the other.\<close>

definition contains :: "bytes \<Rightarrow> bytes \<Rightarrow> bool" where
  "contains data pat = list_ex (\<lambda>i. take (length pat) (drop i data) = pat) [0..<Suc (length data)]"

text \<open>The configuration of the end-to-end example, for any working directory and
  configuration directory.\<close>

definition example_cfg :: "str \<Rightarrow> str \<Rightarrow> config" where
  "example_cfg startdir cdir =
     \<lparr>APPNAME = lit ''Minecraft Splitscreen'', EXE = lit ''/x/run.sh'',
      STARTDIR = startdir, config_dir = cdir\<rparr>"

text \<open>Containers made of the entries \<open>make_entry\<close> builds for the example, with the index
  keys in a given order.\<close>

definition entry_bytes :: "int \<Rightarrow> bytes" where
  "entry_bytes i =
     (case make_entry (lit ''/c'') i 0xEAA674AA (lit ''Minecraft Splitscreen'') (lit ''/x/run.sh'')
             (lit ''/x'') of
        Inr b \<Rightarrow> b
      | Inl e \<Rightarrow> [])"

definition container_with :: "int list \<Rightarrow> bytes" where
  "container_with idxs =
     0x00 # blit ''shortcuts'' @ [0x00] @ concat (map entry_bytes idxs) @ [0x08, 0x08]"

section \<open>Facts about the encoder, the checksum and the number formats\<close>

lemma utf8_cp_None_iff: "utf8_cp c = None \<longleftrightarrow> \<not> encodable_cp c"
  by (auto simp: utf8_cp_def encodable_cp_def is_surrogate_def)

lemma utf8_examples:
  "utf8_cp 0x7F = Some [0x7F]"
  "utf8_cp 0xE9 = Some [0xC3, 0xA9]"
  "utf8_cp 0x7FF = Some [0xDF, 0xBF]"
  "utf8_cp 0x800 = Some [0xE0, 0xA0, 0x80]"
  "utf8_cp 0x20AC = Some [0xE2, 0x82, 0xAC]"
  "utf8_cp 0xFFFF = Some [0xEF, 0xBF, 0xBF]"
  "utf8_cp 0x10000 = Some [0xF0, 0x90, 0x80, 0x80]"
  "utf8_cp 0x1F600 = Some [0xF0, 0x9F, 0x98, 0x80]"
  "utf8_cp 0x10FFFF = Some [0xF4, 0x8F, 0xBF, 0xBF]"
  by (simp_all add: utf8_cp_def is_surrogate_def)

lemma encode_Inr_iff: "(\<exists>bs. encode t = Inr bs) \<longleftrightarrow> encodable t"
proof (induction t)
  case Nil
  show ?case by (simp add: encodable_def)
next
  case (Cons c cs)
  show ?case
  proof (cases "utf8_cp c")
    case None
    then show ?thesis using utf8_cp_None_iff [of c] by (simp add: encodable_def)
  next
    case (Some b)
    then have "encodable_cp c" using utf8_cp_None_iff [of c] by auto
    with Some Cons show ?thesis
      by (cases "encode cs") (auto simp: encodable_def and_then_def)
  qed
qed

lemma encode_error: "encode t = Inl e \<Longrightarrow> e = UnicodeEncodeError"
  by (induction t arbitrary: e) (auto simp: and_then_def split: option.splits sum.splits)

lemma encodable_encode: "encodable t \<Longrightarrow> \<exists>bs. encode t = Inr bs"
  by (simp add: encode_Inr_iff)

lemma not_encodable_encode: "\<not> encodable t \<Longrightarrow> encode t = Inl UnicodeEncodeError"
  using encode_Inr_iff [of t] encode_error [of t] by (cases "encode t") auto

lemma uint_crc_bit: "uint (crc_bit r) = crc_bit_i (uint r)"
proof -
  have "uint (drop_bit 1 r) = uint r div 2"
    by (simp add: drop_bit_eq_div uint_div)
  moreover have "bit r 0 = odd (uint r)"
    using bit_uint_iff [of r 0] by (simp add: bit_0)
  ultimately show ?thesis
    by (simp add: crc_bit_def crc_bit_i_def uint_xor)
qed

lemma uint_crc_bit_pow: "uint ((crc_bit ^^ n) r) = (crc_bit_i ^^ n) (uint r)"
  by (induction n arbitrary: r) (simp_all add: uint_crc_bit)

lemma uint_crc_byte: "uint (crc_byte r b) = crc_byte_i (uint r) b"
  by (simp add: crc_byte_def crc_byte_i_def uint_crc_bit_pow uint_xor uint_up_ucast is_up)

lemma uint_foldl_crc: "uint (foldl crc_byte r bs) = foldl crc_byte_i (uint r) bs"
  by (induction bs arbitrary: r) (simp_all add: uint_crc_byte)

lemma crc32_int: "crc32 bs = foldl crc_byte_i 0xFFFFFFFF bs XOR 0xFFFFFFFF"
  by (simp add: crc32_def crc32_word_def uint_xor uint_foldl_crc)

lemma crc_byte_i_unfold:
  "crc_byte_i r b =
     crc_bit_i (crc_bit_i (crc_bit_i (crc_bit_i (crc_bit_i (crc_bit_i (crc_bit_i (crc_bit_i
       (r XOR uint b))))))))"
  by (simp add: crc_byte_i_def eval_nat_numeral)

lemmas crc_eval = appid_of_bytes_def crc32_int crc_byte_i_unfold crc_bit_i_def

text \<open>The check value of CRC-32: \<^verbatim>\<open>zlib.crc32(b"123456789") == 0xCBF43926\<close>.\<close>

lemma crc32_check_value: "crc32 (blit ''123456789'') = 0xCBF43926"
  by (simp add: crc_eval blit_def)

lemma appid_of_bytes_word: "appid_of_bytes bs = uint (spec_appid bs)"
  by (simp add: appid_of_bytes_def spec_appid_def crc32_def uint_or uint_and or.commute)

lemma appid_of_bytes_lower: "0x80000000 \<le> appid_of_bytes bs"
proof -
  have "0 \<le> crc32 bs AND 0xFFFFFFFF" by simp
  then show ?thesis unfolding appid_of_bytes_def by (rule or_greater_eq)
qed

lemma appid_of_bytes_upper: "appid_of_bytes bs < 2 ^ 32"
  using uint_lt2p [of "spec_appid bs"] by (simp add: appid_of_bytes_word)

lemma appid_of_bytes_bit31: "bit (appid_of_bytes bs) 31"
  by (simp add: appid_of_bytes_def bit_or_iff)

lemma encode_lit_minecraft:
  "encode (lit ''Minecraft Splitscreen'' @ lit ''/x/run.sh'') =
     Inr (blit ''Minecraft Splitscreen/x/run.sh'')"
  by (simp add: lit_def blit_def utf8_cp_def and_then_def)

lemma appid_minecraft: "appid_of_bytes (blit ''Minecraft Splitscreen/x/run.sh'') = 3936777386"
  by (simp add: crc_eval blit_def)

lemma computeAppId_minecraft:
  "computeAppId (lit ''Minecraft Splitscreen'') (lit ''/x/run.sh'') = Inr 3936777386"
  by (simp add: computeAppId_def encode_lit_minecraft and_then_def appid_minecraft)

lemma le_split:
  fixes v :: int
  shows "v mod 256 + 256 * (v div 256 mod 256 + 256 * (v div 65536 mod 256
           + 256 * (v div 16777216))) = v"
proof -
  have a: "v div 65536 = v div 256 div 256" by (simp add: zdiv_zmult2_eq)
  have b: "v div 16777216 = v div 256 div 256 div 256" by (simp add: zdiv_zmult2_eq)
  show ?thesis unfolding a b by (simp add: mult.commute)
qed

lemma struct_pack_I_ok:
  assumes "0 \<le> v" "v < 2 ^ 32"
  shows "\<exists>packed. struct_pack_I v = Inr packed \<and> length packed = 4 \<and> le_value packed = v"
proof -
  have "v div 16777216 < 256" using assms by simp
  moreover have "0 \<le> v div 16777216" using assms by simp
  ultimately have top: "v div 16777216 mod 256 = v div 16777216" by simp
  have "le_value [of_int v, of_int (v div 256), of_int (v div 65536), of_int (v div 16777216)] = v"
    using le_split [of v] by (simp add: le_value_def uint_word_of_int top)
  then show ?thesis using assms
    by (simp add: struct_pack_I_def)
qed

lemma uint_digit: "k < 10 \<Longrightarrow> uint (0x30 + of_nat k :: byte) = 48 + int k"
proof -
  assume k: "k < 10"
  have "unat (0x30 + of_nat k :: byte) = (48 + k) mod 256"
    by (simp add: unat_word_ariths unat_of_nat mod_add_right_eq)
  with k have "unat (0x30 + of_nat k :: byte) = 48 + k" by simp
  then show ?thesis by (simp add: uint_nat)
qed

lemma decimal_value_snoc: "decimal_value (ds @ [d]) = 10 * decimal_value ds + digit_val d"
  by (simp add: decimal_value_def)

lemma digit_val_dec: "k < 10 \<Longrightarrow> digit_val (0x30 + of_nat k) = int k"
  by (simp add: digit_val_def uint_digit)

lemma decimal_value_dec_nat: "decimal_value (dec_nat n) = int n"
proof (induction n rule: dec_nat.induct)
  case (1 n)
  show ?case
  proof (cases "n < 10")
    case True
    then show ?thesis
      by (subst dec_nat.simps) (simp add: decimal_value_def digit_val_dec)
  next
    case False
    have "decimal_value (dec_nat n) =
            10 * decimal_value (dec_nat (n div 10)) + digit_val (0x30 + of_nat (n mod 10))"
      using False by (subst dec_nat.simps) (simp add: decimal_value_snoc)
    also have "\<dots> = 10 * int (n div 10) + int (n mod 10)"
      using False 1 by (simp add: digit_val_dec)
    also have "\<dots> = int n" by (simp add: zmod_int zdiv_int)
    finally show ?thesis .
  qed
qed

lemma length_dec_nat_le: "n < 10 ^ k \<Longrightarrow> 0 < k \<Longrightarrow> length (dec_nat n) \<le> k"
proof (induction n arbitrary: k rule: dec_nat.induct)
  case (1 n)
  show ?case
  proof (cases "n < 10")
    case True
    with 1 show ?thesis by (subst dec_nat.simps) simp
  next
    case False
    from "1.prems" obtain k' where k: "k = Suc k'" by (cases k) auto
    from "1.prems" have "n div 10 < 10 ^ k'" by (simp add: k less_mult_imp_div_less mult.commute)
    moreover have "0 < k'" using False "1.prems" k by (cases k') auto
    ultimately have "length (dec_nat (n div 10)) \<le> k'" using False by (intro "1.IH") simp_all
    with False show ?thesis by (subst dec_nat.simps) (simp add: k)
  qed
qed

lemma length_dec_nat_pow: "length (dec_nat (10 ^ k)) = Suc k"
proof (induction k)
  case 0
  show ?case by (subst dec_nat.simps) simp
next
  case (Suc k)
  have "\<not> (10::nat) ^ Suc k < 10" by simp
  then have "dec_nat (10 ^ Suc k) = dec_nat (10 ^ Suc k div 10) @ [0x30 + of_nat (10 ^ Suc k mod 10)]"
    by (subst dec_nat.simps) simp
  with Suc show ?case by simp
qed

lemma str_bytes_Inr:
  "str_bytes i = Inr b \<longleftrightarrow> decimal_digits i \<le> max_str_digits \<and> b = decimal_text i"
  by (auto simp: str_bytes_def)

lemma str_bytes_error: "str_bytes i = Inl e \<Longrightarrow> e = ValueError"
  by (auto simp: str_bytes_def split: if_splits)

lemma decimal_digits_u32: "0 \<le> v \<Longrightarrow> v < 2 ^ 32 \<Longrightarrow> decimal_digits v \<le> 10"
proof -
  assume v: "0 \<le> v" "v < 2 ^ 32"
  then have "nat \<bar>v\<bar> < 10 ^ 10" by simp
  then show ?thesis unfolding decimal_digits_def by (rule length_dec_nat_le) simp
qed

lemma str_bytes_u32: "0 \<le> v \<Longrightarrow> v < 2 ^ 32 \<Longrightarrow> str_bytes v = Inr (decimal_text v)"
  using decimal_digits_u32 [of v] by (simp add: str_bytes_def max_str_digits_def)

lemma str_bytes_pow: "max_str_digits \<le> k \<Longrightarrow> str_bytes (10 ^ k) = Inl ValueError"
proof -
  assume k: "max_str_digits \<le> k"
  have "nat \<bar>10 ^ k :: int\<bar> = 10 ^ k" by (simp add: nat_power_eq)
  then have "decimal_digits (10 ^ k) = Suc k"
    by (simp only: decimal_digits_def length_dec_nat_pow)
  with k show ?thesis by (simp only: str_bytes_def) simp
qed

lemma endswith_split:
  "endswith data suffix \<Longrightarrow> data = take (length data - length suffix) data @ suffix"
  by (metis append_take_drop_id endswith_def)

lemma endswith_append: "endswith (xs @ suffix) suffix"
  by (simp add: endswith_def)

lemma struct_pack_I_range: "struct_pack_I v = Inr packed \<Longrightarrow> 0 \<le> v \<and> v < 2 ^ 32"
  by (auto simp: struct_pack_I_def split: if_splits)

lemma make_entry_layout:
  assumes "decimal_digits index \<le> max_str_digits"
    and "struct_pack_I appid = Inr packed"
    and "encode appname = Inr nb" and "encode exe = Inr eb"
    and "encode startdir = Inr sb" and "encode cdir = Inr cb"
  shows "make_entry cdir index appid appname exe startdir =
           Inr (record_layout index packed nb eb sb (icon_path cb appid))"
proof -
  have i: "str_bytes index = Inr (decimal_text index)"
    using assms(1) by (simp add: str_bytes_def)
  have a: "str_bytes appid = Inr (decimal_text appid)"
    using struct_pack_I_range [OF assms(2)] by (simp add: str_bytes_u32)
  show ?thesis
    using assms(2-6)
    by (simp add: make_entry_def and_then_def record_layout_def int_field_def text_field_def
        icon_path_def Let_def i a)
qed

lemma is_digit_dec: "k < 10 \<Longrightarrow> is_digit (0x30 + of_nat k)"
proof -
  assume k: "k < 10"
  have "is_digit b \<longleftrightarrow> 48 \<le> uint b \<and> uint b \<le> 57" for b
    by (simp add: is_digit_def word_le_def)
  with k show ?thesis by (simp add: uint_digit)
qed

lemma dec_nat_digits: "list_all is_digit (dec_nat n)"
proof (induction n rule: dec_nat.induct)
  case (1 n)
  show ?case
  proof (cases "n < 10")
    case True
    then show ?thesis by (subst dec_nat.simps) (simp add: is_digit_dec)
  next
    case False
    with 1 show ?thesis by (subst dec_nat.simps) (simp add: is_digit_dec)
  qed
qed

lemma dec_nat_nonempty: "dec_nat n \<noteq> []"
  by (subst dec_nat.simps) simp

lemma py_int_decimal_text:
  assumes "0 \<le> i" "decimal_digits i \<le> max_str_digits"
  shows "py_int (decimal_text i) = Inr i"
  using assms
  by (simp add: py_int_def decimal_text_def decimal_digits_def decimal_value_dec_nat)

section \<open>Facts about the index scan and the example\<close>

lemma contains_append: "contains (pre @ pat @ post) pat"
  unfolding contains_def list_ex_iff
  by (rule bexI [of _ "length pre"]) simp_all

lemma contains_iff: "contains data pat \<longleftrightarrow> (\<exists>pre post. data = pre @ pat @ post)"
proof
  assume "contains data pat"
  then obtain i where i: "take (length pat) (drop i data) = pat"
    by (auto simp: contains_def list_ex_iff)
  have "drop i data = take (length pat) (drop i data) @ drop (length pat) (drop i data)"
    by (simp only: append_take_drop_id)
  then have "data = take i data @ take (length pat) (drop i data) @ drop (length pat) (drop i data)"
    by (metis append_take_drop_id)
  then have "data = take i data @ pat @ drop (length pat) (drop i data)"
    unfolding i .
  then show "\<exists>pre post. data = pre @ pat @ post" by blast
next
  assume "\<exists>pre post. data = pre @ pat @ post"
  then obtain pre post where "data = pre @ pat @ post" by blast
  then show "contains data pat" by (simp add: contains_append)
qed

lemma not_digit_0 [simp]: "\<not> is_digit 0"
  by (simp add: is_digit_def)

lemma takeWhile_digits: "list_all is_digit ds \<Longrightarrow> takeWhile is_digit (ds @ 0 # rest) = ds"
  by (induction ds) simp_all

lemma dropWhile_digits: "list_all is_digit ds \<Longrightarrow> dropWhile is_digit (ds @ 0 # rest) = 0 # rest"
  by (induction ds) simp_all

lemma findall_match:
  assumes "ds \<noteq> []" "list_all is_digit ds"
  shows "findall (0 # ds @ 0 # rest) = ds # findall rest"
proof -
  from assms(1) obtain d ds' where ds: "ds = d # ds'" by (cases ds) auto
  have "takeWhile is_digit (ds @ 0 # rest) = d # ds'"
    using takeWhile_digits [OF assms(2)] ds by simp
  moreover have "dropWhile is_digit (ds @ 0 # rest) = 0 # rest"
    by (rule dropWhile_digits [OF assms(2)])
  ultimately show ?thesis by (simp add: ds)
qed

lemma marker_at_0:
  "marker_at xs 0 ds \<longleftrightarrow> ds \<noteq> [] \<and> list_all is_digit ds \<and> (\<exists>rest. xs = 0 # ds @ 0 # rest)"
proof
  assume m: "marker_at xs 0 ds"
  then have t: "take (length ds + 2) xs = 0 # ds @ [0]" by (simp add: marker_at_def)
  have "xs = take (length ds + 2) xs @ drop (length ds + 2) xs" by simp
  then have "xs = 0 # ds @ 0 # drop (length ds + 2) xs" unfolding t by simp
  with m show "ds \<noteq> [] \<and> list_all is_digit ds \<and> (\<exists>rest. xs = 0 # ds @ 0 # rest)"
    by (auto simp: marker_at_def)
next
  assume "ds \<noteq> [] \<and> list_all is_digit ds \<and> (\<exists>rest. xs = 0 # ds @ 0 # rest)"
  then show "marker_at xs 0 ds" by (auto simp: marker_at_def)
qed

lemma marker_at_Suc: "marker_at (b # bs) (Suc i) ds \<longleftrightarrow> marker_at bs i ds"
  by (simp add: marker_at_def)

lemma marker_at_drop: "marker_at (drop p data) i ds \<longleftrightarrow> marker_at data (p + i) ds"
  by (simp add: marker_at_def add.commute)

lemma marker_at_length: "marker_at data i ds \<Longrightarrow> i + length ds + 2 \<le> length data"
proof -
  assume "marker_at data i ds"
  then have "length (take (length ds + 2) (drop i data)) = length ds + 2"
    by (simp add: marker_at_def)
  then show ?thesis by simp
qed

lemma findall_no_match:
  assumes "\<And>ds. \<not> marker_at (b # bs) 0 ds"
  shows "findall (b # bs) = findall bs"
proof (cases "b = 0")
  case False
  then show ?thesis by simp
next
  case True
  show ?thesis
  proof (cases "takeWhile is_digit bs")
    case Nil
    with True show ?thesis by simp
  next
    case tw: (Cons d ds)
    show ?thesis
    proof (cases "dropWhile is_digit bs")
      case Nil
      with True tw show ?thesis by (simp del: dropWhile_eq_Nil_conv)
    next
      case dw: (Cons z rest)
      show ?thesis
      proof (cases "z = 0")
        case False
        with True tw dw show ?thesis by simp
      next
        case z: True
        have "bs = takeWhile is_digit bs @ dropWhile is_digit bs" by simp
        then have "bs = (d # ds) @ 0 # rest"
          using tw dw z by simp
        moreover have "list_all is_digit (d # ds)"
          using tw by (metis list_all_iff set_takeWhileD)
        ultimately have "marker_at (b # bs) 0 (d # ds)"
          using True by (subst marker_at_0) auto
        with assms show ?thesis by blast
      qed
    qed
  qed
qed

lemma findall_none: "(\<And>i ds. \<not> marker_at xs i ds) \<Longrightarrow> findall xs = []"
proof (induction xs)
  case Nil
  show ?case by simp
next
  case (Cons b bs)
  have "findall (b # bs) = findall bs"
    by (rule findall_no_match) (rule Cons.prems)
  moreover have "findall bs = []"
  proof (rule Cons.IH)
    fix i ds
    show "\<not> marker_at bs i ds" using Cons.prems [of "Suc i" ds] by (simp add: marker_at_Suc)
  qed
  ultimately show ?case by simp
qed

lemma findall_first:
  assumes "marker_at xs i ds" "\<And>j ds'. marker_at xs j ds' \<Longrightarrow> i \<le> j"
  shows "findall xs = ds # findall (drop (i + length ds + 2) xs)"
  using assms
proof (induction i arbitrary: xs)
  case 0
  then obtain rest where xs: "xs = 0 # ds @ 0 # rest" and d: "ds \<noteq> []" "list_all is_digit ds"
    by (auto simp: marker_at_0)
  show ?case unfolding xs using findall_match [OF d, of rest] by simp
next
  case (Suc i)
  from marker_at_length [OF Suc.prems(1)] obtain b bs where xs: "xs = b # bs"
    by (cases xs) auto
  have no: "\<not> marker_at (b # bs) 0 ds'" for ds'
    using Suc.prems(2) [of 0 ds'] xs by auto
  have m: "marker_at bs i ds" using Suc.prems(1) xs by (simp add: marker_at_Suc)
  have least: "i \<le> j" if "marker_at bs j ds'" for j ds'
    using Suc.prems(2) [of "Suc j" ds'] that xs by (simp add: marker_at_Suc)
  have "findall xs = findall bs" unfolding xs by (rule findall_no_match) (rule no)
  also have "\<dots> = ds # findall (drop (i + length ds + 2) bs)"
    by (rule Suc.IH [OF m least])
  finally show ?case by (simp add: xs)
qed

lemma scan_findall: "scan data p ms \<Longrightarrow> findall (drop p data) = map snd ms"
proof (induction rule: scan.induct)
  case (scan_done data p)
  have "findall (drop p data) = []"
  proof (rule findall_none)
    fix i ds
    show "\<not> marker_at (drop p data) i ds"
      using scan_done [of "p + i" ds] by (auto simp: marker_at_drop)
  qed
  then show ?case by simp
next
  case (scan_found data i ds p ms)
  have m: "marker_at (drop p data) (i - p) ds"
    using scan_found.hyps(1,2) by (simp add: marker_at_drop)
  have least: "i - p \<le> j" if "marker_at (drop p data) j ds'" for j ds'
    using scan_found.hyps(3) [of "p + j" ds'] that by (simp add: marker_at_drop)
  have "findall (drop p data) = ds # findall (drop (i - p + length ds + 2) (drop p data))"
    by (rule findall_first [OF m least])
  also have "drop (i - p + length ds + 2) (drop p data) = drop (i + length ds + 2) data"
    using scan_found.hyps(2) by (simp add: add.commute)
  finally show ?case using scan_found.IH by simp
qed

lemma scan_exists: "\<exists>ms. scan data p ms"
proof (induction "length data - p" arbitrary: p rule: less_induct)
  case less
  show ?case
  proof (cases "\<exists>i ds. marker_at data i ds \<and> p \<le> i")
    case False
    then have "scan data p []" by (intro scan_done) (meson not_le)
    then show ?thesis by blast
  next
    case True
    define P where "P i \<longleftrightarrow> (\<exists>ds. marker_at data i ds) \<and> p \<le> i" for i
    from True have "\<exists>i. P i" by (auto simp: P_def)
    then obtain i where i: "P i" and least: "\<And>j. P j \<Longrightarrow> i \<le> j"
      by (metis LeastI_ex Least_le)
    from i obtain ds where m: "marker_at data i ds" and pi: "p \<le> i" by (auto simp: P_def)
    have "length data - (i + length ds + 2) < length data - p"
      using marker_at_length [OF m] pi by simp
    from less [OF this] obtain ms where sc: "scan data (i + length ds + 2) ms" by blast
    have "scan data p ((i, ds) # ms)"
    proof (rule scan_found [OF m pi _ sc])
      fix j ds'
      assume "marker_at data j ds'" "p \<le> j"
      then have "P j" by (auto simp: P_def)
      then show "i \<le> j" by (rule least)
    qed
    then show ?thesis by blast
  qed
qed


lemma encode_examples:
  "encode (lit ''Minecraft Splitscreen'') = Inr (blit ''Minecraft Splitscreen'')"
  "encode (lit ''/x/run.sh'') = Inr (blit ''/x/run.sh'')"
  "encode (lit ''/x'') = Inr (blit ''/x'')"
  "encode (lit ''/c'') = Inr (blit ''/c'')"
  by (simp_all add: lit_def blit_def utf8_cp_def and_then_def)

lemma pack_example: "struct_pack_I 0xEAA674AA = Inr [0xAA, 0x74, 0xA6, 0xEA]"
  by (simp add: struct_pack_I_def)

lemma decimal_text_examples:
  "decimal_text 0 = [0x30]" "decimal_text 2 = [0x32]" "decimal_text 5 = [0x35]"
  "decimal_text 0xEAA674AA = blit ''3936777386''"
  by (simp_all add: decimal_text_def dec_nat.simps blit_def)

lemma decimal_digits_examples:
  "decimal_digits 0 \<le> max_str_digits" "decimal_digits 2 \<le> max_str_digits"
  "decimal_digits 5 \<le> max_str_digits"
  by (simp_all add: decimal_digits_def dec_nat.simps max_str_digits_def)

lemma make_entry_example:
  assumes "decimal_digits i \<le> max_str_digits"
  shows "make_entry (lit ''/c'') i 0xEAA674AA (lit ''Minecraft Splitscreen'') (lit ''/x/run.sh'')
           (lit ''/x'')
     = Inr (record_layout i [0xAA, 0x74, 0xA6, 0xEA] (blit ''Minecraft Splitscreen'')
              (blit ''/x/run.sh'') (blit ''/x'') (icon_path (blit ''/c'') 0xEAA674AA))"
  by (rule make_entry_layout [OF assms pack_example encode_examples])

lemma entry_bytes_eval:
  assumes "decimal_digits i \<le> max_str_digits"
  shows "entry_bytes i = 0x00 # decimal_text i @ 0x00 #
     blit (CHR 0x02 # ''appid'') @ [0x00, 0xAA, 0x74, 0xA6, 0xEA]
     @ blit (CHR 0x01 # ''appname'') @ 0x00 # blit ''Minecraft Splitscreen'' @ 0x00 #
       blit (CHR 0x01 # ''exe'') @ 0x00 # blit ''/x/run.sh'' @ 0x00 #
       blit (CHR 0x01 # ''StartDir'') @ 0x00 # blit ''/x'' @ 0x00 #
       blit (CHR 0x01 # ''icon'') @ 0x00 # blit ''/c/grid/3936777386_icon.ico'' @ [0x00, 0x08]"
  by (simp add: entry_bytes_def make_entry_example [OF assms] record_layout_def int_field_def
      text_field_def icon_path_def decimal_text_examples blit_def)

lemma nextIndex_eval:
  "nextIndex data =
     (case findall data of
        [] \<Rightarrow> Inr 0
      | m # ms \<Rightarrow> if max_str_digits < length (last (m # ms)) then Inl ValueError
                  else Inr (decimal_value (last (m # ms)) + 1))"
  by (simp add: nextIndex_def get_latest_index_def py_int_def and_then_def Let_def
      split: list.splits)

lemma nextIndex_empty_vdf: "nextIndex empty_vdf = Inr 0"
  by (simp add: nextIndex_eval empty_vdf_def blit_def is_digit_def)

text \<open>The digit limit at work: a marker of 4301 digits makes the index scan raise, and
  the run then ends on line 236 without touching the file.\<close>

lemma nextIndex_single_marker:
  assumes "ds \<noteq> []" "list_all is_digit ds"
  shows "nextIndex (0 # ds @ [0]) =
           (if max_str_digits < length ds then Inl ValueError else Inr (decimal_value ds + 1))"
  using findall_match [OF assms, of "[]"] by (simp add: nextIndex_eval)

lemma nextIndex_digit_limit: "nextIndex (0 # replicate 4301 0x31 @ [0]) = Inl ValueError"
proof -
  have "list_all is_digit (replicate 4301 0x31)"
    by (simp add: list_all_iff is_digit_def)
  moreover have "replicate 4301 (0x31 :: byte) \<noteq> []" by simp
  ultimately show ?thesis
    using nextIndex_single_marker [of "replicate 4301 0x31"]
    by (simp add: max_str_digits_def)
qed

lemma add_shortcut_index_error:
  "nextIndex data = Inl e \<Longrightarrow> add_shortcut cfg (Some data) = (Some data, Inl e)"
  by (simp add: add_shortcut_def and_then_def)

section \<open>The claims\<close>

subsection \<open>C1: what computeAppId returns\<close>

text \<open>
  C1, as stated, says that \<open>computeAppId\<close> is total over all text inputs. It is not: a
  Python \<^verbatim>\<open>str\<close> may hold a lone surrogate (a home directory whose name is not valid
  UTF-8 reaches the script that way), and \<^verbatim>\<open>encode("utf-8")\<close> raises on it.
\<close>

theorem computeAppId_surrogate_counterexample:
  "computeAppId (lit ''Minecraft Splitscreen'') (lit ''/home/'' @ [0xDCFF] @ lit ''/run.sh'')
     = Inl UnicodeEncodeError"
  by (simp add: computeAppId_def lit_def utf8_cp_def is_surrogate_def and_then_def)

text \<open>
  C1, amended: for every pair of texts without surrogate code points, \<open>computeAppId\<close>
  returns the 32-bit value obtained from the standard CRC-32 of the UTF-8 bytes of
  \<open>displayName + executablePath\<close>, masked to 32 bits, with bit 31 set; on these inputs
  it always returns.
\<close>

theorem computeAppId_spec:
  assumes "encodable (appname @ exe)"
  shows "\<exists>bs. encode (appname @ exe) = Inr bs
           \<and> computeAppId appname exe = Inr (uint (spec_appid bs))"
proof -
  from assms obtain bs where "encode (appname @ exe) = Inr bs"
    using encodable_encode by blast
  then show ?thesis
    by (simp add: computeAppId_def and_then_def appid_of_bytes_word)
qed

theorem computeAppId_spec_witness:
  "encodable (lit ''Minecraft Splitscreen'' @ lit ''/x/run.sh'')
   \<and> (\<exists>bs. encode (lit ''Minecraft Splitscreen'' @ lit ''/x/run.sh'') = Inr bs
          \<and> computeAppId (lit ''Minecraft Splitscreen'') (lit ''/x/run.sh'')
              = Inr (uint (spec_appid bs)))
   \<and> computeAppId (lit ''Minecraft Splitscreen'') (lit ''/x/run.sh'') = Inr 0xEAA674AA"
proof -
  have e: "encodable (lit ''Minecraft Splitscreen'' @ lit ''/x/run.sh'')"
    by (simp add: encodable_def encodable_cp_def is_surrogate_def lit_def)
  from computeAppId_spec [OF e] e show ?thesis
    by (simp add: computeAppId_minecraft)
qed

subsection \<open>C7: the high bit\<close>

text \<open>
  C7: every value \<open>computeAppId\<close> returns has bit 31 set, that is, it is at least
  \<open>0x80000000\<close>; and the only inputs on which it returns no value are those UTF-8
  cannot encode. The empty strings give \<open>0x80000000\<close> itself.
\<close>

theorem computeAppId_high_bit:
  "case computeAppId appname exe of
     Inr v \<Rightarrow> bit v 31 \<and> 0x80000000 \<le> v
   | Inl e \<Rightarrow> e = UnicodeEncodeError \<and> \<not> encodable (appname @ exe)"
proof (cases "encode (appname @ exe)")
  case (Inl e)
  then have "\<not> encodable (appname @ exe)" using encode_Inr_iff [of "appname @ exe"] by auto
  with Inl show ?thesis
    using encode_error [of "appname @ exe" e] by (simp add: computeAppId_def and_then_def)
next
  case (Inr bs)
  then show ?thesis
    by (simp add: computeAppId_def and_then_def appid_of_bytes_bit31 appid_of_bytes_lower)
qed

theorem computeAppId_high_bit_witness:
  "computeAppId [] [] = Inr 0x80000000 \<and> bit (0x80000000 :: int) 31"
  using computeAppId_high_bit [of "[]" "[]"]
  by (simp add: computeAppId_def and_then_def crc_eval)

subsection \<open>C2: the splice\<close>

text \<open>
  C2: for a container that ends with the two terminator bytes, \<open>insertEntry\<close> returns the
  bytes before the terminator, then the entry, then the terminator again: every byte
  before the removed suffix keeps its position, the entry follows that prefix directly,
  and the output ends with the terminator.
\<close>

theorem insertEntry_splice:
  assumes "endswith data terminator"
  shows "\<exists>pre out. data = pre @ terminator \<and> length pre = length data - 2
           \<and> insertEntry data entry = Inr out
           \<and> out = pre @ entry @ terminator
           \<and> (\<forall>i < length pre. out ! i = data ! i)
           \<and> take (length pre) out = pre
           \<and> take (length entry) (drop (length pre) out) = entry
           \<and> endswith out terminator"
proof -
  define pre where "pre = drop_last2 data"
  define out where "out = pre @ entry @ terminator"
  have len: "2 \<le> length data" using assms by (simp add: endswith_def terminator_def)
  have lt: "length terminator = 2" by (simp add: terminator_def)
  have d: "data = pre @ terminator"
    using endswith_split [OF assms] unfolding lt pre_def drop_last2_def .
  have l: "length pre = length data - 2" using len by (simp add: pre_def drop_last2_def)
  have i: "insertEntry data entry = Inr out"
    using assms by (simp add: insertEntry_def out_def pre_def)
  have n: "\<forall>i < length pre. out ! i = data ! i"
    by (subst d) (simp add: out_def nth_append)
  have e: "endswith out terminator"
    unfolding out_def using endswith_append [of "pre @ entry" terminator] by simp
  from d l i n e show ?thesis by (auto simp: out_def)
qed

theorem insertEntry_splice_witness:
  "endswith empty_vdf terminator
   \<and> insertEntry empty_vdf [0x41] = Inr (0x00 # blit ''shortcuts'' @ [0x00, 0x41, 0x08, 0x08])"
proof -
  have h: "endswith empty_vdf terminator"
    by (simp add: endswith_def empty_vdf_def terminator_def blit_def)
  from insertEntry_splice [OF h, of "[0x41]"] h show ?thesis
    by (simp add: insertEntry_def empty_vdf_def terminator_def drop_last2_def blit_def)
qed

subsection \<open>C3: a container without the terminator\<close>

text \<open>
  C3: on a container that does not end with \<open>0x08 0x08\<close>, \<open>insertEntry\<close> fails with
  \<open>MalformedContainer\<close>; the run of the script on such a file leaves the file as it was
  and ends with exit status 1. The run ends with \<open>MalformedContainer\<close> itself whenever
  it reaches line 267, that is, when the index and its decimal text are within the
  digit limit and the texts of the configuration can be encoded.
\<close>

theorem insertEntry_malformed:
  assumes "\<not> endswith data terminator"
  shows "insertEntry data entry = Inl MalformedContainer
         \<and> fst (add_shortcut cfg (Some data)) = Some data
         \<and> (\<exists>e. snd (add_shortcut cfg (Some data)) = Inl e \<and> exit_status e = 1)
         \<and> (nextIndex data = Inr index \<and> decimal_digits index \<le> max_str_digits
              \<and> encodable (APPNAME cfg) \<and> encodable (EXE cfg) \<and> encodable (STARTDIR cfg)
              \<and> encodable (config_dir cfg)
             \<longrightarrow> snd (add_shortcut cfg (Some data)) = Inl MalformedContainer)"
proof -
  have ins: "insertEntry data entry' = Inl MalformedContainer" for entry'
    using assms by (simp add: insertEntry_def)
  have st: "exit_status e = 1" for e by (cases e) (simp_all add: exit_status_def)
  have a: "fst (add_shortcut cfg (Some data)) = Some data"
    by (auto simp: add_shortcut_def Let_def and_then_def ins split: sum.splits)
  have b: "\<exists>e. snd (add_shortcut cfg (Some data)) = Inl e \<and> exit_status e = 1"
    by (auto simp: add_shortcut_def Let_def and_then_def ins st split: sum.splits)
  have c: "snd (add_shortcut cfg (Some data)) = Inl MalformedContainer"
    if ix: "nextIndex data = Inr index" "decimal_digits index \<le> max_str_digits"
      and h: "encodable (APPNAME cfg)" "encodable (EXE cfg)" "encodable (STARTDIR cfg)"
       "encodable (config_dir cfg)"
  proof -
    have "encodable (APPNAME cfg @ EXE cfg)" using h by (simp add: encodable_def)
    then obtain bs where bs: "encode (APPNAME cfg @ EXE cfg) = Inr bs"
      using encodable_encode by blast
    obtain nb eb sb cb where enc: "encode (APPNAME cfg) = Inr nb" "encode (EXE cfg) = Inr eb"
      "encode (STARTDIR cfg) = Inr sb" "encode (config_dir cfg) = Inr cb"
      using encodable_encode [OF h(1)] encodable_encode [OF h(2)]
        encodable_encode [OF h(3)] encodable_encode [OF h(4)] by blast
    have "0 \<le> appid_of_bytes bs" using appid_of_bytes_lower [of bs] by simp
    from struct_pack_I_ok [OF this appid_of_bytes_upper] obtain packed
      where "struct_pack_I (appid_of_bytes bs) = Inr packed" by blast
    from make_entry_layout [OF ix(2) this enc]
    show ?thesis using bs ix(1)
      by (simp add: add_shortcut_def Let_def and_then_def ins computeAppId_def)
  qed
  from ins a b c show ?thesis by blast
qed

theorem insertEntry_malformed_witness:
  "\<not> endswith (blit ''not a vdf'') terminator
   \<and> insertEntry (blit ''not a vdf'') [0x41] = Inl MalformedContainer
   \<and> nextIndex (blit ''not a vdf'') = Inr 0
   \<and> add_shortcut cfg0 (Some (blit ''not a vdf''))
       = (Some (blit ''not a vdf''), Inl MalformedContainer)
   \<and> exit_status MalformedContainer = 1"
proof -
  have h: "\<not> endswith (blit ''not a vdf'') terminator"
    by (simp add: endswith_def terminator_def blit_def)
  have i: "nextIndex (blit ''not a vdf'') = Inr 0"
    by (simp add: nextIndex_eval blit_def)
  have e: "encodable (APPNAME cfg0) \<and> encodable (EXE cfg0) \<and> encodable (STARTDIR cfg0)
             \<and> encodable (config_dir cfg0)"
    by (simp add: cfg0_def encodable_def encodable_cp_def is_surrogate_def lit_def)
  from insertEntry_malformed [OF h, of "[0x41]" cfg0 0] e h i decimal_digits_examples(1)
  show ?thesis
    by (simp add: prod_eq_iff exit_status_def)
qed

subsection \<open>C6: the layout of a record\<close>

text \<open>
  C6, as stated, holds for every index, identifier and text. \<open>make_entry\<close> fails on an
  identifier that does not fit 32 bits unsigned (\<^verbatim>\<open>struct.error\<close>), on a text with a
  lone surrogate (\<^verbatim>\<open>UnicodeEncodeError\<close>) and on an index of more than 4300 decimal
  digits (\<^verbatim>\<open>ValueError\<close> from \<^verbatim>\<open>str(index)\<close>).
\<close>

theorem buildRecord_unrestricted_counterexample:
  "make_entry (lit ''/c'') 0 0x100000000 (lit ''Minecraft Splitscreen'') (lit ''/x/run.sh'')
     (lit ''/x'') = Inl StructError
   \<and> make_entry (lit ''/c'') 0 0xEAA674AA (lit ''Minecraft Splitscreen'')
       (lit ''/home/'' @ [0xDCFF] @ lit ''/run.sh'') (lit ''/x'') = Inl UnicodeEncodeError
   \<and> make_entry (lit ''/c'') (10 ^ 4300) 0xEAA674AA (lit ''Minecraft Splitscreen'')
       (lit ''/x/run.sh'') (lit ''/x'') = Inl ValueError"
proof -
  have s0: "str_bytes 0 = Inr [0x30]"
    using decimal_digits_examples(1) by (simp add: str_bytes_def decimal_text_examples)
  have a: "make_entry (lit ''/c'') 0 0x100000000 (lit ''Minecraft Splitscreen'')
             (lit ''/x/run.sh'') (lit ''/x'') = Inl StructError"
    by (simp add: make_entry_def and_then_def s0 struct_pack_I_def)
  have b: "make_entry (lit ''/c'') 0 0xEAA674AA (lit ''Minecraft Splitscreen'')
             (lit ''/home/'' @ [0xDCFF] @ lit ''/run.sh'') (lit ''/x'') = Inl UnicodeEncodeError"
    by (simp add: make_entry_def and_then_def s0 pack_example lit_def utf8_cp_def
        is_surrogate_def)
  have "str_bytes (10 ^ 4300) = Inl ValueError"
    by (rule str_bytes_pow) (simp add: max_str_digits_def)
  then have c: "make_entry (lit ''/c'') (10 ^ 4300) 0xEAA674AA (lit ''Minecraft Splitscreen'')
             (lit ''/x/run.sh'') (lit ''/x'') = Inl ValueError"
    by (simp only: make_entry_def and_then_def Let_def sum.case)
  from a b c show ?thesis by blast
qed

text \<open>
  C6, amended: for every index of at most 4300 decimal digits, every identifier that
  fits 32 bits unsigned and all texts without surrogate code points, \<open>make_entry\<close>
  produces exactly: a null byte, the decimal text of the index (for an index from 0 on:
  digits only, which \<^verbatim>\<open>int\<close> reads back as the index), a null byte; the tag \<open>0x02\<close>,
  \<open>appid\<close>, a null byte and the identifier as four bytes, least significant first; then,
  each as tag \<open>0x01\<close>, name, null byte, value, null byte, the fields \<open>appname\<close>, \<open>exe\<close>,
  \<open>StartDir\<close> and \<open>icon\<close>, the icon value being \<open><configDir>/grid/<appId>_icon.ico\<close>;
  and one closing byte \<open>0x08\<close>. Nothing stands between the fields.
\<close>

theorem buildRecord_layout:
  assumes "decimal_digits index \<le> max_str_digits"
    and "0 \<le> appid" "appid < 2 ^ 32"
    and "encodable appname" "encodable exe" "encodable startdir" "encodable cdir"
  shows "\<exists>packed nb eb sb cb.
           length packed = 4 \<and> le_value packed = appid
           \<and> encode appname = Inr nb \<and> encode exe = Inr eb
           \<and> encode startdir = Inr sb \<and> encode cdir = Inr cb
           \<and> make_entry cdir index appid appname exe startdir =
               Inr ([0x00] @ decimal_text index @ [0x00]
                    @ [0x02] @ blit ''appid'' @ [0x00] @ packed
                    @ [0x01] @ blit ''appname'' @ [0x00] @ nb @ [0x00]
                    @ [0x01] @ blit ''exe'' @ [0x00] @ eb @ [0x00]
                    @ [0x01] @ blit ''StartDir'' @ [0x00] @ sb @ [0x00]
                    @ [0x01] @ blit ''icon'' @ [0x00]
                        @ (cb @ blit ''/grid/'' @ decimal_text appid @ blit ''_icon.ico'') @ [0x00]
                    @ [0x08])
           \<and> (0 \<le> index \<longrightarrow> decimal_text index \<noteq> [] \<and> list_all is_digit (decimal_text index)
                  \<and> py_int (decimal_text index) = Inr index)"
proof -
  from struct_pack_I_ok [OF assms(2,3)] obtain packed
    where p: "struct_pack_I appid = Inr packed" "length packed = 4" "le_value packed = appid"
    by blast
  obtain nb eb sb cb where enc: "encode appname = Inr nb" "encode exe = Inr eb"
      "encode startdir = Inr sb" "encode cdir = Inr cb"
    using encodable_encode [OF assms(4)] encodable_encode [OF assms(5)]
      encodable_encode [OF assms(6)] encodable_encode [OF assms(7)] by blast
  have dec: "decimal_text index \<noteq> [] \<and> list_all is_digit (decimal_text index)
               \<and> py_int (decimal_text index) = Inr index" if "0 \<le> index"
    using that py_int_decimal_text [OF that assms(1)]
    by (simp add: decimal_text_def dec_nat_nonempty dec_nat_digits)
  from make_entry_layout [OF assms(1) p(1) enc] p(2,3) enc dec show ?thesis
    by (simp add: record_layout_def int_field_def text_field_def icon_path_def)
qed

theorem buildRecord_layout_witness:
  "decimal_digits 0 \<le> max_str_digits
   \<and> (0::int) \<le> 0xEAA674AA \<and> (0xEAA674AA::int) < 2 ^ 32
   \<and> encodable (lit ''Minecraft Splitscreen'') \<and> encodable (lit ''/x/run.sh'')
   \<and> encodable (lit ''/x'') \<and> encodable (lit ''/c'')
   \<and> make_entry (lit ''/c'') 0 0xEAA674AA (lit ''Minecraft Splitscreen'') (lit ''/x/run.sh'') (lit ''/x'')
       = Inr ([0x00] @ blit ''0'' @ [0x00]
              @ [0x02] @ blit ''appid'' @ [0x00] @ [0xAA, 0x74, 0xA6, 0xEA]
              @ [0x01] @ blit ''appname'' @ [0x00] @ blit ''Minecraft Splitscreen'' @ [0x00]
              @ [0x01] @ blit ''exe'' @ [0x00] @ blit ''/x/run.sh'' @ [0x00]
              @ [0x01] @ blit ''StartDir'' @ [0x00] @ blit ''/x'' @ [0x00]
              @ [0x01] @ blit ''icon'' @ [0x00] @ blit ''/c/grid/3936777386_icon.ico'' @ [0x00]
              @ [0x08])
   \<and> py_int (blit ''0'') = Inr 0"
proof -
  have a: "(0::int) \<le> 0xEAA674AA" and b: "(0xEAA674AA::int) < 2 ^ 32" by simp_all
  have e: "encodable (lit ''Minecraft Splitscreen'')" "encodable (lit ''/x/run.sh'')"
    "encodable (lit ''/x'')" "encodable (lit ''/c'')"
    by (simp_all add: encodable_def encodable_cp_def is_surrogate_def lit_def)
  note d = decimal_digits_examples(1)
  from buildRecord_layout [OF d a b e] d a b e show ?thesis
    by (simp add: make_entry_example [OF d] record_layout_def int_field_def
        text_field_def icon_path_def decimal_text_examples blit_def py_int_def
        decimal_value_def digit_val_def max_str_digits_def)
qed

subsection \<open>C9: the identifier always packs\<close>

text \<open>
  C9: a value returned by \<open>computeAppId\<close> lies between \<open>0x80000000\<close> and
  \<open>0xFFFFFFFF\<close>, so \<^verbatim>\<open>struct.pack('<I', appid)\<close> succeeds on it (four bytes that
  read back as the value) and \<open>make_entry\<close> never fails with the out-of-range error;
  a value is returned for every pair of texts UTF-8 can encode.
\<close>

theorem computeAppId_packs:
  "case computeAppId appname exe of
     Inr v \<Rightarrow> 0x80000000 \<le> v \<and> v \<le> 0xFFFFFFFF
       \<and> (\<exists>packed. struct_pack_I v = Inr packed \<and> length packed = 4 \<and> le_value packed = v)
       \<and> make_entry cdir index v appname' exe' startdir \<noteq> Inl StructError
   | Inl e \<Rightarrow> \<not> encodable (appname @ exe)"
proof (cases "computeAppId appname exe")
  case (Inl e)
  then have "\<not> encodable (appname @ exe)"
    using encode_Inr_iff [of "appname @ exe"]
    by (auto simp: computeAppId_def and_then_def split: sum.splits)
  with Inl show ?thesis by simp
next
  case (Inr v)
  then obtain bs where v: "v = appid_of_bytes bs"
    by (auto simp: computeAppId_def and_then_def split: sum.splits)
  have lo: "0x80000000 \<le> v" and hi: "v < 2 ^ 32"
    using appid_of_bytes_lower [of bs] appid_of_bytes_upper [of bs] by (simp_all add: v)
  then have nn: "0 \<le> v" by simp
  from struct_pack_I_ok [OF nn hi] obtain packed
    where p: "struct_pack_I v = Inr packed" "length packed = 4" "le_value packed = v" by blast
  have "make_entry cdir index v appname' exe' startdir \<noteq> Inl StructError"
    using p(1)
    by (auto simp: make_entry_def and_then_def Let_def split: sum.splits
        dest: encode_error str_bytes_error)
  with lo hi p Inr show ?thesis by auto
qed

theorem computeAppId_packs_witness:
  "computeAppId (lit ''Minecraft Splitscreen'') (lit ''/x/run.sh'') = Inr 0xEAA674AA
   \<and> struct_pack_I 0xEAA674AA = Inr [0xAA, 0x74, 0xA6, 0xEA]
   \<and> le_value [0xAA, 0x74, 0xA6, 0xEA] = 0xEAA674AA"
  using computeAppId_packs [of "lit ''Minecraft Splitscreen''" "lit ''/x/run.sh''"]
  by (simp add: computeAppId_minecraft struct_pack_I_def le_value_def)

subsection \<open>C4: the next index\<close>

text \<open>
  C4, as stated, takes the last occurrence of the pattern by byte position. In
  \<open>0x00 '0' 0x00 '1' 0x00\<close> that is the occurrence at position 2, with digit \<open>1\<close>, so the
  claim gives 2; the script returns 1, since the scan does not see an occurrence that
  starts on the closing null byte of a match.
\<close>

theorem nextIndex_last_occurrence_counterexample:
  "marker_at [0, 0x30, 0, 0x31, 0] 2 [0x31]
   \<and> \<not> (\<exists>j ds. 2 < j \<and> marker_at [0, 0x30, 0, 0x31, 0] j ds)
   \<and> decimal_value [0x31] + 1 = 2
   \<and> nextIndex [0, 0x30, 0, 0x31, 0] = Inr 1"
proof -
  have a: "marker_at [0, 0x30, 0, 0x31, 0] 2 [0x31]"
    by (simp add: marker_at_def is_digit_def)
  have b: "\<not> (\<exists>j ds. 2 < j \<and> marker_at [0, 0x30, 0, 0x31, 0] j ds)"
  proof
    assume "\<exists>j ds. 2 < j \<and> marker_at [0, 0x30, 0, 0x31, 0] j ds"
    then obtain j ds where j: "2 < j" and m: "marker_at [0, 0x30, 0, 0x31, 0] j ds" by blast
    from m have "ds \<noteq> []" by (simp add: marker_at_def)
    then have "1 \<le> length ds" by (cases ds) auto
    with marker_at_length [OF m] j show False by simp
  qed
  have c: "decimal_value [0x31] + 1 = 2" by (simp add: decimal_value_def digit_val_def)
  have d: "nextIndex [0, 0x30, 0, 0x31, 0] = Inr 1"
    by (simp add: nextIndex_eval is_digit_def decimal_value_def digit_val_def max_str_digits_def)
  from a b c d show ?thesis by blast
qed

text \<open>
  C4, amended: for every container byte sequence, \<open>nextIndex\<close> returns 0 when no
  occurrence of the pattern exists in the sequence. Otherwise it takes the last of the
  non-overlapping occurrences that a scan from left to right finds, each search
  resuming right after the previous match: when that occurrence has at most 4300
  digits, \<open>nextIndex\<close> returns one plus the integer value of its digits; when it has
  more, \<^verbatim>\<open>int\<close> raises \<^verbatim>\<open>ValueError\<close> and nothing is returned. Such a scan exists for
  every byte sequence.
\<close>

theorem nextIndex_scan:
  "(\<exists>ms. scan data 0 ms)
   \<and> (\<forall>ms. scan data 0 ms \<longrightarrow>
         nextIndex data =
           (if ms = [] then Inr 0
            else if max_str_digits < length (snd (last ms)) then Inl ValueError
            else Inr (decimal_value (snd (last ms)) + 1)))
   \<and> ((\<forall>i ds. \<not> marker_at data i ds) \<longrightarrow> nextIndex data = Inr 0)"
proof -
  have ex: "\<exists>ms. scan data 0 ms" by (rule scan_exists)
  have val: "nextIndex data =
           (if ms = [] then Inr 0
            else if max_str_digits < length (snd (last ms)) then Inl ValueError
            else Inr (decimal_value (snd (last ms)) + 1))"
    if "scan data 0 ms" for ms
  proof -
    from scan_findall [OF that] have f: "findall data = map snd ms" by simp
    show ?thesis
    proof (cases ms)
      case Nil
      with f show ?thesis by (simp add: nextIndex_eval)
    next
      case (Cons m ms')
      then have "last (map snd ms) = snd (last ms)" by (simp add: last_map)
      with Cons f show ?thesis by (simp add: nextIndex_eval)
    qed
  qed
  have none: "nextIndex data = Inr 0" if "\<forall>i ds. \<not> marker_at data i ds"
  proof -
    have "findall data = []" by (rule findall_none) (use that in blast)
    then show ?thesis by (simp add: nextIndex_eval)
  qed
  from ex val none show ?thesis by blast
qed

theorem nextIndex_scan_witness:
  "scan [0, 0x30, 0, 0x31, 0] 0 [(0, [0x30])]
   \<and> nextIndex [0, 0x30, 0, 0x31, 0] = Inr (decimal_value [0x30] + 1)
   \<and> decimal_value [0x30] + 1 = 1"
proof -
  let ?d = "[0, 0x30, 0, 0x31, 0] :: bytes"
  have m: "marker_at ?d 0 [0x30]" by (simp add: marker_at_def is_digit_def)
  have rest: "scan ?d (0 + length [0x30 :: byte] + 2) []"
  proof (rule scan_done)
    fix i ds
    assume mi: "marker_at ?d i ds"
    then have "ds \<noteq> []" by (simp add: marker_at_def)
    then have "1 \<le> length ds" by (cases ds) auto
    with marker_at_length [OF mi] show "i < 0 + length [0x30 :: byte] + 2" by simp
  qed
  have s: "scan ?d 0 [(0, [0x30])]"
    by (rule scan_found [OF m _ _ rest]) simp_all
  from nextIndex_scan [of ?d] s have "nextIndex ?d = Inr (decimal_value [0x30] + 1)"
    by (auto simp: max_str_digits_def)
  with s show ?thesis by (simp add: decimal_value_def digit_val_def)
qed

subsection \<open>C10: markers that share a null byte\<close>



subsection \<open>C5: index keys out of order\<close>

text \<open>
  C5 asks for 6 on a container with the index keys 0, 2 and 5 in any order, as the
  docstring of \<^verbatim>\<open>get_latest_index\<close> ("find the highest shortcut index") promises. The
  script takes the last match: with the entries in the order 5, 0, 2 it returns 3. In
  the order 0, 2, 5 it returns 6, and 0 on the empty container.
\<close>

theorem nextIndex_out_of_order:
  "make_entry (lit ''/c'') 5 0xEAA674AA (lit ''Minecraft Splitscreen'') (lit ''/x/run.sh'') (lit ''/x'')
     = Inr (entry_bytes 5)
   \<and> nextIndex (container_with [5, 0, 2]) = Inr 3
   \<and> nextIndex (container_with [0, 2, 5]) = Inr 6
   \<and> nextIndex empty_vdf = Inr 0"
proof -
  note ev = entry_bytes_eval [OF decimal_digits_examples(1)]
    entry_bytes_eval [OF decimal_digits_examples(2)]
    entry_bytes_eval [OF decimal_digits_examples(3)]
  have a: "make_entry (lit ''/c'') 5 0xEAA674AA (lit ''Minecraft Splitscreen'') (lit ''/x/run.sh'')
             (lit ''/x'') = Inr (entry_bytes 5)"
    by (simp add: entry_bytes_def make_entry_example [OF decimal_digits_examples(3)])
  have b: "nextIndex (container_with [5, 0, 2]) = Inr 3"
    by (simp add: container_with_def ev decimal_text_examples blit_def
        nextIndex_eval is_digit_def decimal_value_def digit_val_def max_str_digits_def)
  have c: "nextIndex (container_with [0, 2, 5]) = Inr 6"
    by (simp add: container_with_def ev decimal_text_examples blit_def
        nextIndex_eval is_digit_def decimal_value_def digit_val_def max_str_digits_def)
  from a b c nextIndex_empty_vdf show ?thesis by blast
qed

subsection \<open>C8: the end-to-end example\<close>

text \<open>
  C8: on the freshly initialised container \<open>0x00 'shortcuts' 0x00 0x08 0x08\<close> the next
  index is 0, and the run for \<open>Minecraft Splitscreen\<close> with \<open>/x/run.sh\<close> writes bytes
  that start with the first 7 (indeed the first 11) bytes of the original, contain
  \<open>0x00 '0' 0x00\<close>, contain \<open>0x02 'appid' 0x00\<close> followed by the identifier
  \<open>0xEAA674AA\<close> in four bytes, least significant first, and end with \<open>0x08 0x08\<close>. A
  missing file behaves like the empty container.
\<close>

theorem end_to_end_example:
  assumes "encodable startdir" "encodable cdir"
  shows "nextIndex empty_vdf = Inr 0
         \<and> computeAppId (lit ''Minecraft Splitscreen'') (lit ''/x/run.sh'') = Inr 0xEAA674AA
         \<and> struct_pack_I 0xEAA674AA = Inr [0xAA, 0x74, 0xA6, 0xEA]
         \<and> add_shortcut (example_cfg startdir cdir) None
             = add_shortcut (example_cfg startdir cdir) (Some empty_vdf)
         \<and> (\<exists>out. add_shortcut (example_cfg startdir cdir) (Some empty_vdf)
                     = (Some out, Inr (0, 0xEAA674AA))
                \<and> take 7 out = take 7 empty_vdf
                \<and> take 11 out = take 11 empty_vdf
                \<and> contains out [0x00, 0x30, 0x00]
                \<and> contains out ([0x02] @ blit ''appid'' @ [0x00] @ [0xAA, 0x74, 0xA6, 0xEA])
                \<and> endswith out terminator)"
proof -
  from assms obtain sb cb where sb: "encode startdir = Inr sb" and cb: "encode cdir = Inr cb"
    using encodable_encode by blast
  define tail where "tail =
     text_field ''appname'' (blit ''Minecraft Splitscreen'') @ text_field ''exe'' (blit ''/x/run.sh'')
     @ text_field ''StartDir'' sb @ text_field ''icon'' (icon_path cb 0xEAA674AA) @ [0x08]"
  define entry where "entry = [0x00, 0x30, 0x00] @ ([0x02] @ blit ''appid'' @ [0x00] @ [0xAA, 0x74, 0xA6, 0xEA]) @ tail"
  define out where "out = take 11 empty_vdf @ entry @ terminator"
  note idx = nextIndex_empty_vdf
  have me: "make_entry cdir 0 0xEAA674AA (lit ''Minecraft Splitscreen'') (lit ''/x/run.sh'') startdir
              = Inr entry"
    using make_entry_layout [OF decimal_digits_examples(1) pack_example encode_examples(1,2) sb cb]
    by (simp add: record_layout_def entry_def tail_def int_field_def decimal_text_examples)
  have ew: "endswith empty_vdf terminator"
    by (simp add: endswith_def empty_vdf_def terminator_def blit_def)
  have dl: "drop_last2 empty_vdf = take 11 empty_vdf"
    by (simp add: drop_last2_def empty_vdf_def blit_def)
  have ins: "insertEntry empty_vdf entry = Inr out"
    using ew by (simp add: insertEntry_def out_def dl)
  have run: "add_shortcut (example_cfg startdir cdir) (Some empty_vdf) = (Some out, Inr (0, 0xEAA674AA))"
    by (simp add: add_shortcut_def example_cfg_def Let_def idx computeAppId_minecraft and_then_def
        me ins)
  have same: "add_shortcut (example_cfg startdir cdir) None
                = add_shortcut (example_cfg startdir cdir) (Some empty_vdf)"
    by (simp add: add_shortcut_def)
  have l13: "length empty_vdf = 13" by (simp add: empty_vdf_def blit_def)
  have t11: "take 11 out = take 11 empty_vdf" by (simp add: out_def l13)
  have t7: "take 7 out = take 7 empty_vdf"
    using arg_cong [OF t11, of "take 7"] by simp
  have c1: "contains out [0x00, 0x30, 0x00]"
    unfolding out_def entry_def
    using contains_append [of "take 11 empty_vdf" "[0x00, 0x30, 0x00]"] by simp
  have c2: "contains out ([0x02] @ blit ''appid'' @ [0x00] @ [0xAA, 0x74, 0xA6, 0xEA])"
    unfolding out_def entry_def
    using contains_append [of "take 11 empty_vdf @ [0x00, 0x30, 0x00]"
        "[0x02] @ blit ''appid'' @ [0x00] @ [0xAA, 0x74, 0xA6, 0xEA]" "tail @ terminator"]
    by simp
  have e: "endswith out terminator"
    unfolding out_def using endswith_append [of "take 11 empty_vdf @ entry" terminator] by simp
  from idx computeAppId_minecraft pack_example same run t7 t11 c1 c2 e show ?thesis
    by simp
qed

theorem end_to_end_example_witness:
  "encodable (lit ''/x'') \<and> encodable (lit ''/c'')
   \<and> add_shortcut cfg0 (Some empty_vdf)
       = (Some (0x00 # blit ''shortcuts'' @ [0x00] @ entry_bytes 0 @ [0x08, 0x08]),
          Inr (0, 0xEAA674AA))"
proof -
  have a: "encodable (lit ''/x'')" and b: "encodable (lit ''/c'')"
    by (simp_all add: encodable_def encodable_cp_def is_surrogate_def lit_def)
  have c: "cfg0 = example_cfg (lit ''/x'') (lit ''/c'')"
    by (simp add: cfg0_def example_cfg_def)
  note gl = nextIndex_empty_vdf
  have ew: "endswith empty_vdf terminator"
    by (simp add: endswith_def empty_vdf_def terminator_def blit_def)
  have ins: "insertEntry empty_vdf e = Inr (0x00 # blit ''shortcuts'' @ [0x00] @ e @ [0x08, 0x08])" for e
    using ew by (simp add: insertEntry_def drop_last2_def empty_vdf_def blit_def terminator_def)
  have "add_shortcut cfg0 (Some empty_vdf)
       = (Some (0x00 # blit ''shortcuts'' @ [0x00] @ entry_bytes 0 @ [0x08, 0x08]),
          Inr (0, 0xEAA674AA))"
    by (simp add: add_shortcut_def cfg0_def Let_def gl computeAppId_minecraft and_then_def
        make_entry_example [OF decimal_digits_examples(1)] entry_bytes_def ins)
  with end_to_end_example [OF a b] a b show ?thesis by simp
qed

end
